theory Spec2Isabelle
  imports Complex_Main "HOL-Library.Word" "HOL-Library.Multiset"
begin

section \<open>The random forest trainer (RFTrainer)\<close>

text \<open>
  A shallow embedding of \<^verbatim>\<open>RFTrainer\<close> (Shark).  Conventions:
  \<^item> \<^verbatim>\<open>double\<close> is \<^typ>\<open>real\<close>: rounding, infinities and NaN are not modelled;
  \<^item> \<^verbatim>\<open>std::size_t\<close> is \<^typ>\<open>64 word\<close> wherever the code does arithmetic on it that
    is not bounded by the size of a container (\<^verbatim>\<open>n*n\<close>, \<^verbatim>\<open>start+length\<close>,
    \<^verbatim>\<open>2*nodeId+1\<close>), and \<^typ>\<open>nat\<close> for positions inside a vector;
  \<^item> the entries of a \<^verbatim>\<open>ClassVector\<close> (\<^verbatim>\<open>UIntVector\<close>) are \<^typ>\<open>32 word\<close>;
  \<^item> a \<^verbatim>\<open>RealVector\<close> is a \<^typ>\<open>real list\<close>, a \<^verbatim>\<open>std::vector\<close> a list;
  \<^item> an exception is the left summand of a sum type.
\<close>

subsection \<open>Configuration and \<^verbatim>\<open>setDefaults\<close>\<close>

record trainer =
  m_inputDimension :: nat
  m_labelDimension :: nat
  m_maxLabel :: nat
  m_try :: nat
  m_B :: nat
  m_nodeSize :: nat
  m_OOBratio :: real
  m_regressionLearner :: bool
  m_computeFeatureImportances :: bool
  m_computeOOBerror :: bool







subsection \<open>Failures\<close>

text \<open>
  \<^verbatim>\<open>InvalidArgument\<close> is the exception that \<^verbatim>\<open>totalSumOfSquares\<close> throws.  The
  others are outcomes that C++ leaves undefined or that have no real value:
  \<^verbatim>\<open>OutOfRange\<close> is an access outside a vector, \<^verbatim>\<open>DivisionByZero\<close> a division of
  a double by a zero count (NaN or an infinity) or a remainder by zero,
  \<^verbatim>\<open>Diverges\<close> a loop that never ends, and \<^verbatim>\<open>OutOfFuel\<close> the end of the recursion
  budget of the model.
\<close>

datatype error = InvalidArgument | OutOfRange | DivisionByZero | Diverges | OutOfFuel

subsection \<open>Impurity: \<^verbatim>\<open>gini\<close> and \<^verbatim>\<open>totalSumOfSquares\<close>\<close>

type_synonym ClassVector = "32 word list"
type_synonym RealVector = "real list"

text \<open>
  \<^verbatim>\<open>sqr\<close> is declared in \<^verbatim>\<open>shark/Core/Math.h\<close>, which is not among the sources, so
  \<^verbatim>\<open>gini\<close> takes it as a parameter: the value of \<^verbatim>\<open>sqr(i)\<close> once converted to
  \<^verbatim>\<open>double\<close>.  Two readings are given names: the exact square, and the square taken
  in the 32-bit type of the count.
\<close>

definition sqr_exact :: "32 word \<Rightarrow> real" where
  "sqr_exact i = (real (unat i))\<^sup>2"

definition sqr_uint :: "32 word \<Rightarrow> real" where
  "sqr_uint i = real (unat (i * i))"

text \<open>
  \<^verbatim>\<open>n = n*n\<close> is a product of \<^verbatim>\<open>std::size_t\<close>: it wraps at \<open>2^64\<close>.  Where it wraps
  to 0 the C++ divides by zero; the doubles there are infinite or NaN and the value of
  the model (HOL's \<open>x / 0 = 0\<close>) means nothing.
\<close>

definition gini :: "(32 word \<Rightarrow> real) \<Rightarrow> ClassVector \<Rightarrow> 64 word \<Rightarrow> real" where
  "gini sqr countVector n =
     (if n \<noteq> 0
      then 1 - fold (\<lambda>i res. res + sqr i / real (unat (n * n))) countVector 0
      else 1 - 0)"


definition vminus :: "RealVector \<Rightarrow> RealVector \<Rightarrow> RealVector" where
  "vminus u v = map2 (-) u v"

definition vdiv :: "RealVector \<Rightarrow> real \<Rightarrow> RealVector" where
  "vdiv v c = map (\<lambda>x. x / c) v"

definition norm_sqr :: "RealVector \<Rightarrow> real" where
  "norm_sqr v = (\<Sum>x\<leftarrow>v. x\<^sup>2)"

text \<open>
  The loop of \<^verbatim>\<open>totalSumOfSquares\<close> over \<open>i = 0, ..., length - 1\<close>.  The index
  \<^verbatim>\<open>start+i\<close> is a sum of \<^verbatim>\<open>std::size_t\<close>; reading \<^verbatim>\<open>labels[start+i]\<close> outside the
  vector is undefined in C++ and \<^verbatim>\<open>OutOfRange\<close> here.
\<close>

fun sumOfSquares_loop ::
  "RealVector list \<Rightarrow> 64 word \<Rightarrow> RealVector \<Rightarrow> nat list \<Rightarrow> real \<Rightarrow> error + real" where
  "sumOfSquares_loop labels start labelAvg [] sumOfSquares = Inr sumOfSquares"
| "sumOfSquares_loop labels start labelAvg (i # is) sumOfSquares =
     (if unat (start + of_nat i) < size labels
      then sumOfSquares_loop labels start labelAvg is
             (sumOfSquares + norm_sqr (vminus (labels ! unat (start + of_nat i)) labelAvg))
      else Inl OutOfRange)"

definition totalSumOfSquares ::
  "RealVector list \<Rightarrow> 64 word \<Rightarrow> 64 word \<Rightarrow> RealVector \<Rightarrow> error + real" where
  "totalSumOfSquares labels start len sumLabel =
     (if len < 1 then Inl InvalidArgument
      else if size labels < unat (start + len) then Inl InvalidArgument
      else sumOfSquares_loop labels start (vdiv sumLabel (real (unat len)))
             [0..<unat len] 0)"

subsection \<open>Attribute tables and \<^verbatim>\<open>splitAttributeTables\<close>\<close>

record RFAttribute =
  attr_value :: real
  attr_id :: nat

type_synonym AttributeTable = "RFAttribute list"
type_synonym AttributeTables = "AttributeTable list"

text \<open>
  The \<^verbatim>\<open>std::unordered_map<std::size_t, bool>\<close>: a later entry of the winning table
  overwrites an earlier one with the same id, and \<^verbatim>\<open>hash[k]\<close> of a missing key is
  the default \<^verbatim>\<open>false\<close>.
\<close>

definition build_hash :: "AttributeTable \<Rightarrow> nat \<Rightarrow> (nat \<rightharpoonup> bool)" where
  "build_hash table valIndex =
     fold (\<lambda>i hash. hash(attr_id (table ! i) \<mapsto> (i \<le> valIndex))) [0..<size table] Map.empty"

definition hash_lookup :: "(nat \<rightharpoonup> bool) \<Rightarrow> nat \<Rightarrow> bool" where
  "hash_lookup hash k = (case hash k of None \<Rightarrow> False | Some b \<Rightarrow> b)"

text \<open>The inner loop over \<open>j\<close>: every entry is appended to the left or to the right table.\<close>

definition splitTable :: "(nat \<rightharpoonup> bool) \<Rightarrow> AttributeTable \<Rightarrow> AttributeTable \<times> AttributeTable" where
  "splitTable hash table =
     fold (\<lambda>a (l, r). if hash_lookup hash (attr_id a) then (l @ [a], r) else (l, r @ [a]))
       table ([], [])"

text \<open>
  The two output collections are the fresh, empty vectors that both callers pass.
  \<^verbatim>\<open>tables[index]\<close> outside the collection is \<^verbatim>\<open>OutOfRange\<close>.
\<close>

definition splitAttributeTables ::
  "AttributeTables \<Rightarrow> nat \<Rightarrow> nat \<Rightarrow> error + (AttributeTables \<times> AttributeTables)" where
  "splitAttributeTables tables index valIndex =
     (if index < size tables
      then let hash = build_hash (tables ! index) valIndex
           in Inr (fold (\<lambda>table (LAttributeTables, RAttributeTables).
                           (LAttributeTables @ [fst (splitTable hash table)],
                            RAttributeTables @ [snd (splitTable hash table)]))
                     tables ([], []))
      else Inl OutOfRange)"

text \<open>
  The invariants of the data model: a table is sorted ascending by value, and the tables
  of a collection hold the same rows, each row once (they are aligned by row id).
\<close>

definition sorted_table :: "AttributeTable \<Rightarrow> bool" where
  "sorted_table table = sorted (map attr_value table)"

definition aligned :: "AttributeTables \<Rightarrow> bool" where
  "aligned tables =
     (\<forall>t\<in>set tables. distinct (map attr_id t) \<and> set (map attr_id t) = set (map attr_id (hd tables)))"

text \<open>The ids at the positions \<open>0, ..., valIndex\<close> of the winning table.\<close>

definition leftIds :: "AttributeTables \<Rightarrow> nat \<Rightarrow> nat \<Rightarrow> nat set" where
  "leftIds tables index valIndex = set (map attr_id (take (Suc valIndex) (tables ! index)))"

text \<open>A collection of two features over three rows, for the examples.\<close>

definition ex_tables :: AttributeTables where
  "ex_tables =
    [[\<lparr>attr_value = 1, attr_id = 2\<rparr>, \<lparr>attr_value = 3, attr_id = 0\<rparr>, \<lparr>attr_value = 3, attr_id = 1\<rparr>],
     [\<lparr>attr_value = 0, attr_id = 0\<rparr>, \<lparr>attr_value = 4, attr_id = 1\<rparr>, \<lparr>attr_value = 7, attr_id = 2\<rparr>]]"

subsection \<open>Random feature subsets: \<^verbatim>\<open>generateRandomTableIndicies\<close>\<close>







subsection \<open>The sample of a tree: \<^verbatim>\<open>train\<close>\<close>



subsection \<open>Iteration that can fail\<close>

text \<open>
  A \<^verbatim>\<open>for\<close> loop whose body can fail: the first failure ends the loop.
\<close>

fun for_each :: "('a \<Rightarrow> 's \<Rightarrow> error + 's) \<Rightarrow> 'a list \<Rightarrow> 's \<Rightarrow> error + 's" where
  "for_each body [] s = Inr s"
| "for_each body (x # xs) s = (case body x s of Inl e \<Rightarrow> Inl e | Inr s' \<Rightarrow> for_each body xs s')"

subsection \<open>Classification: the split search of \<^verbatim>\<open>buildTree\<close>\<close>








subsection \<open>Regression: \<^verbatim>\<open>average\<close> and the split search\<close>









subsection \<open>The tree: \<^verbatim>\<open>hist\<close> and \<^verbatim>\<open>buildTree\<close>\<close>












subsection \<open>What the split search computes\<close>




text \<open>
  The two count vectors, the impurity and the record of locals that the classification
  scan has at boundary \<open>i\<close> of attribute \<open>a\<close>.
\<close>

definition countsBelow :: "trainer \<Rightarrow> (nat \<Rightarrow> nat) \<Rightarrow> AttributeTable \<Rightarrow> nat \<Rightarrow> ClassVector" where
  "countsBelow t dataset table i =
     fold (\<lambda>j c. c[dataset (attr_id (table ! j)) := c ! dataset (attr_id (table ! j)) + 1])
       [0..<i] (replicate (m_maxLabel t + 1) 0)"





text \<open>
  The same for regression: the sum of squares that \<^verbatim>\<open>totalSumOfSquares\<close> returns on a
  range inside the labels, the two running sums, the impurity and the locals.
\<close>


text \<open>The class labels of a table's rows.\<close>

definition classLabels :: "(nat \<Rightarrow> nat) \<Rightarrow> AttributeTable \<Rightarrow> nat list" where
  "classLabels dataset table = map (\<lambda>a. dataset (attr_id a)) table"

definition sumOfSquares :: "RealVector list \<Rightarrow> nat \<Rightarrow> nat \<Rightarrow> RealVector \<Rightarrow> real" where
  "sumOfSquares labels start len sumLabel =
     (\<Sum>i\<leftarrow>[0..<len]. norm_sqr (vminus (labels ! (start + i)) (vdiv sumLabel (real len))))"







subsection \<open>Well-formed calls of \<^verbatim>\<open>buildTree\<close>\<close>

text \<open>
  A well-formed call: the tables are aligned and not empty, the count vector counts the
  labels of the node's rows (fewer than \<open>2^32\<close> rows, labels up to \<^verbatim>\<open>m_maxLabel\<close>), and
  for regression there is one label per row.
\<close>

definition class_wf :: "trainer \<Rightarrow> (nat \<Rightarrow> nat) \<Rightarrow> AttributeTables \<Rightarrow> ClassVector \<Rightarrow> bool" where
  "class_wf t dataset tables cAbove \<longleftrightarrow>
     tables \<noteq> [] \<and> aligned tables \<and> hd tables \<noteq> [] \<and> size (hd tables) < 2 ^ 32
   \<and> (\<forall>a\<in>set (hd tables). dataset (attr_id a) \<le> m_maxLabel t)
   \<and> cAbove = countsBelow t dataset (hd tables) (size (hd tables))"





subsection \<open>The root call: \<^verbatim>\<open>createAttributeTables\<close> and \<^verbatim>\<open>createCountVector\<close>\<close>

text \<open>
  The dataset of inputs is its accessor \<^verbatim>\<open>dataset.element(i)[j]\<close>, and \<^verbatim>\<open>std::sort\<close>
  with \<^verbatim>\<open>tableSort\<close> is a parameter: it may order equal values in any way.
\<close>

definition createAttributeTables ::
  "(AttributeTable \<Rightarrow> AttributeTable) \<Rightarrow> trainer \<Rightarrow> (nat \<Rightarrow> nat \<Rightarrow> real) \<Rightarrow> nat \<Rightarrow> AttributeTables" where
  "createAttributeTables sort_table t element elements =
     map (\<lambda>j. sort_table (map (\<lambda>i. \<lparr>attr_value = element i j, attr_id = i\<rparr>) [0..<elements]))
       [0..<m_inputDimension t]"

text \<open>A label above \<^verbatim>\<open>m_maxLabel\<close> indexes outside the count vector: \<^verbatim>\<open>OutOfRange\<close>.\<close>

definition createCountVector :: "trainer \<Rightarrow> (nat \<Rightarrow> nat) \<Rightarrow> nat \<Rightarrow> error + ClassVector" where
  "createCountVector t dataset elements =
     for_each (\<lambda>i cAbove. if dataset i < size cAbove
                           then Inr (cAbove[dataset i := cAbove ! dataset i + 1])
                           else Inl OutOfRange)
       [0..<elements] (replicate (m_maxLabel t + 1) 0)"

text \<open>What a sort does: it permutes the table and leaves it sorted by value.\<close>

definition sorts_tables :: "(AttributeTable \<Rightarrow> AttributeTable) \<Rightarrow> bool" where
  "sorts_tables sort_table \<longleftrightarrow>
     (\<forall>table. mset (sort_table table) = mset table \<and> sorted_table (sort_table table))"

subsection \<open>An example: four rows, two features that separate the two halves\<close>













section \<open>Properties\<close>

subsection \<open>Defaults\<close>



subsection \<open>Gini impurity\<close>

lemma fold_add_sum: "fold (\<lambda>i res. res + f i) xs (a::real) = a + sum_list (map f xs)"
  by (induction xs arbitrary: a) simp_all

lemma gini_zero: "gini sqr c 0 = 1"
  by (simp add: gini_def)

lemma unat_square:
  assumes "unat (n::64 word) < 2 ^ 32"
  shows "unat (n * n) = unat n * unat n"
proof -
  have "unat n * unat n < 2 ^ 32 * 2 ^ 32"
    using assms by (intro mult_strict_mono) simp_all
  then have "unat n * unat n < 2 ^ LENGTH(64)" by simp
  then show ?thesis by (simp only: unat_mult_lem [THEN iffD1])
qed

text \<open>
  Where nothing wraps (\<open>n < 2^32\<close>, squares taken exactly) the code computes the Gini
  impurity of the counts.
\<close>

lemma gini_in_range:
  assumes "n \<noteq> 0" "unat n < 2 ^ 32"
  shows "gini sqr_exact c n = 1 - (\<Sum>i\<leftarrow>c. (real (unat i) / real (unat n))\<^sup>2)"
proof -
  have "real (unat (n * n)) = (real (unat n))\<^sup>2"
    using unat_square [OF assms(2)] by (simp add: power2_eq_square)
  then show ?thesis using assms(1)
    by (simp add: gini_def fold_add_sum sqr_exact_def power_divide)
qed

lemma gini_pure: "gini sqr_exact [0, 4, 0] 4 = 0"
  by (simp add: gini_def sqr_exact_def)

lemma gini_uniform: "gini sqr_exact [5, 5, 5, 5] 20 = 1 - 1 / 4"
  by (simp add: gini_def sqr_exact_def)

text \<open>
  C4.  The claim: for every count vector \<open>c\<close> and total \<open>n > 0\<close>, \<^verbatim>\<open>gini(c, n)\<close> is
  \<open>1 - sum_j (c[j]/n)^2\<close>.  At the counts \<open>[2^32 - 1, 2]\<close> with total \<open>n = 2^32 + 1\<close> the
  product \<^verbatim>\<open>n*n\<close> wraps to \<open>2^33 + 1\<close>, whatever \<^verbatim>\<open>sqr\<close> is: the code divides the
  squares by \<open>2^33 + 1\<close> instead of \<open>n^2\<close>, and with exact squares its result is negative.
\<close>

theorem gini_square_wraps:
  "gini sqr [4294967295, 2] 4294967297 = 1 - (sqr 4294967295 + sqr 2) / 8589934593
   \<and> gini sqr_exact [4294967295, 2] 4294967297 < 0"
  by (simp add: gini_def sqr_exact_def add_divide_distrib)

subsection \<open>Sum of squares\<close>



lemma totalSumOfSquares_example: "totalSumOfSquares [[1], [1], [5], [5]] 0 4 [12] = Inr 16"
  by (simp add: totalSumOfSquares_def vdiv_def vminus_def norm_sqr_def upt_rec)

text \<open>
  C5.  The claim: the function fails with invalid-argument if and only if
  \<open>length < 1\<close> or \<open>start + length > labels.size()\<close>.  With one label, \<open>start = 2^64 - 1\<close>
  and \<open>length = 1\<close> the range exceeds the labels, but \<^verbatim>\<open>start+length\<close> wraps to 0: no
  guard fires, and the loop reads \<^verbatim>\<open>labels[2^64 - 1]\<close>, outside the vector.
\<close>

theorem totalSumOfSquares_range_wraps:
  "totalSumOfSquares [[0]] 18446744073709551615 1 [0] = Inl OutOfRange"
  by (simp add: totalSumOfSquares_def)

subsection \<open>Splitting the attribute tables\<close>

lemma splitTable_fold:
  "fold (\<lambda>a (l, r). if P a then (l @ [a], r) else (l, r @ [a])) table (l0, r0) =
     (l0 @ filter P table, r0 @ filter (\<lambda>a. \<not> P a) table)"
  by (induction table arbitrary: l0 r0) simp_all

lemma splitTable_filter:
  "splitTable hash table =
     (filter (\<lambda>a. hash_lookup hash (attr_id a)) table,
      filter (\<lambda>a. \<not> hash_lookup hash (attr_id a)) table)"
  unfolding splitTable_def by (simp add: splitTable_fold)

lemma split_outer_fold:
  "fold (\<lambda>table (L, R). (L @ [f table], R @ [g table])) tables (L0, R0) =
     (L0 @ map f tables, R0 @ map g tables)"
  by (induction tables arbitrary: L0 R0) simp_all

lemma splitAttributeTables_map:
  "index < size tables \<Longrightarrow>
   splitAttributeTables tables index valIndex =
     Inr (map (\<lambda>t. filter (\<lambda>a. hash_lookup (build_hash (tables ! index) valIndex) (attr_id a)) t) tables,
          map (\<lambda>t. filter (\<lambda>a. \<not> hash_lookup (build_hash (tables ! index) valIndex) (attr_id a)) t) tables)"
  by (simp add: splitAttributeTables_def split_outer_fold splitTable_filter Let_def)

lemma build_hash_prefix:
  assumes "distinct (map attr_id table)" "m \<le> size table"
  shows "fold (\<lambda>i hash. hash(attr_id (table ! i) \<mapsto> (i \<le> valIndex))) [0..<m] Map.empty k =
         (if k \<in> set (map attr_id (take m table))
          then Some (k \<in> set (map attr_id (take (Suc valIndex) table))) else None)"
  using assms(2)
proof (induction m)
  case 0
  then show ?case by simp
next
  case (Suc m)
  then have m: "m < size table" by simp
  have tk: "take (Suc m) table = take m table @ [table ! m]"
    using m by (simp add: take_Suc_conv_app_nth)
  have "(attr_id (table ! m) \<in> set (map attr_id (take (Suc valIndex) table))) = (m \<le> valIndex)"
  proof
    assume "attr_id (table ! m) \<in> set (map attr_id (take (Suc valIndex) table))"
    then obtain i where i: "i < Suc valIndex" "i < size table" "attr_id (table ! i) = attr_id (table ! m)"
      by (auto simp: in_set_conv_nth)
    then have "map attr_id table ! i = map attr_id table ! m" using m by simp
    moreover have "i < size (map attr_id table)" "m < size (map attr_id table)"
      using i(2) m by simp_all
    ultimately have "i = m" using assms(1) by (simp only: nth_eq_iff_index_eq)
    then show "m \<le> valIndex" using i(1) by simp
  next
    assume "m \<le> valIndex"
    then have "table ! m \<in> set (take (Suc valIndex) table)"
      using m by (auto simp: in_set_conv_nth intro!: exI [of _ m])
    then show "attr_id (table ! m) \<in> set (map attr_id (take (Suc valIndex) table))" by simp
  qed
  then show ?case using Suc m by (simp add: tk)
qed

lemma hash_lookup_build_hash:
  assumes "distinct (map attr_id table)"
  shows "hash_lookup (build_hash table valIndex) k \<longleftrightarrow>
         k \<in> set (map attr_id (take (Suc valIndex) table))"
proof -
  have "set (take (Suc valIndex) table) \<subseteq> set table" by (rule set_take_subset)
  then show ?thesis
    unfolding hash_lookup_def build_hash_def
    using build_hash_prefix [OF assms order_refl, of valIndex k] by auto
qed

lemma sorted_table_filter: "sorted_table t \<Longrightarrow> sorted_table (filter P t)"
  unfolding sorted_table_def by (induction t) auto

lemma splitAttributeTables_filter:
  assumes "index < size tables" "distinct (map attr_id (tables ! index))"
  shows "splitAttributeTables tables index valIndex =
     Inr (map (filter (\<lambda>a. attr_id a \<in> leftIds tables index valIndex)) tables,
          map (filter (\<lambda>a. attr_id a \<notin> leftIds tables index valIndex)) tables)"
  using assms by (simp add: splitAttributeTables_map hash_lookup_build_hash leftIds_def)

text \<open>
  C2.  For a collection of sorted tables aligned by row id, \<^verbatim>\<open>splitAttributeTables\<close>
  returns a left and a right collection with one table per feature; for every feature
  the two sizes sum to the size of the parent table, the left table holds exactly the
  rows whose id stands at a position \<open>\<le> valIndex\<close> of the winning table and the right
  table the others, both in the order of the parent table, so both are sorted.
\<close>

theorem splitAttributeTables_partition:
  assumes "index < size tables" "aligned tables" "\<forall>t\<in>set tables. sorted_table t"
  shows "\<exists>L R. splitAttributeTables tables index valIndex = Inr (L, R)
           \<and> size L = size tables \<and> size R = size tables
           \<and> (\<forall>i < size tables.
                 size (L ! i) + size (R ! i) = size (tables ! i)
               \<and> L ! i = filter (\<lambda>a. attr_id a \<in> leftIds tables index valIndex) (tables ! i)
               \<and> R ! i = filter (\<lambda>a. attr_id a \<notin> leftIds tables index valIndex) (tables ! i)
               \<and> sorted_table (L ! i) \<and> sorted_table (R ! i))"
proof -
  have d: "distinct (map attr_id (tables ! index))"
    using assms(1,2) by (simp add: aligned_def)
  show ?thesis
    unfolding splitAttributeTables_filter [OF assms(1) d]
    using assms(3) by (simp add: sum_length_filter_compl sorted_table_filter)
qed

theorem splitAttributeTables_partition_witness:
  "\<exists>L R. splitAttributeTables ex_tables 0 0 = Inr (L, R)
     \<and> L ! 1 = [\<lparr>attr_value = 7, attr_id = 2\<rparr>]
     \<and> R ! 1 = [\<lparr>attr_value = 0, attr_id = 0\<rparr>, \<lparr>attr_value = 4, attr_id = 1\<rparr>]
     \<and> size (L ! 1) + size (R ! 1) = 3 \<and> sorted_table (L ! 1) \<and> sorted_table (R ! 1)"
proof -
  have h1: "0 < size ex_tables" by (simp add: ex_tables_def)
  have h2: "aligned ex_tables" by (auto simp: aligned_def ex_tables_def)
  have h3: "\<forall>t\<in>set ex_tables. sorted_table t" by (simp add: ex_tables_def sorted_table_def)
  have ids: "leftIds ex_tables 0 0 = {2}" by (simp add: leftIds_def ex_tables_def)
  from splitAttributeTables_partition [OF h1 h2 h3, of 0]
  obtain L R where s: "splitAttributeTables ex_tables 0 0 = Inr (L, R)"
    and a: "\<forall>i < size ex_tables.
                 size (L ! i) + size (R ! i) = size (ex_tables ! i)
               \<and> L ! i = filter (\<lambda>a. attr_id a \<in> leftIds ex_tables 0 0) (ex_tables ! i)
               \<and> R ! i = filter (\<lambda>a. attr_id a \<notin> leftIds ex_tables 0 0) (ex_tables ! i)
               \<and> sorted_table (L ! i) \<and> sorted_table (R ! i)"
    by blast
  have "1 < size ex_tables" by (simp add: ex_tables_def)
  with a have b: "size (L ! 1) + size (R ! 1) = size (ex_tables ! 1)
               \<and> L ! 1 = filter (\<lambda>a. attr_id a \<in> leftIds ex_tables 0 0) (ex_tables ! 1)
               \<and> R ! 1 = filter (\<lambda>a. attr_id a \<notin> leftIds ex_tables 0 0) (ex_tables ! 1)
               \<and> sorted_table (L ! 1) \<and> sorted_table (R ! 1)"
    by blast
  have e: "ex_tables ! 1 =
    [\<lparr>attr_value = 0, attr_id = 0\<rparr>, \<lparr>attr_value = 4, attr_id = 1\<rparr>, \<lparr>attr_value = 7, attr_id = 2\<rparr>]"
    by (simp add: ex_tables_def)
  from b have L1: "L ! 1 = [\<lparr>attr_value = 7, attr_id = 2\<rparr>]"
    unfolding ids e by simp
  from b have R1: "R ! 1 = [\<lparr>attr_value = 0, attr_id = 0\<rparr>, \<lparr>attr_value = 4, attr_id = 1\<rparr>]"
    unfolding ids e by simp
  from b have sz: "size (L ! 1) + size (R ! 1) = 3"
    unfolding e by simp
  from b have "sorted_table (L ! 1)" and "sorted_table (R ! 1)"
    by blast+
  with L1 R1 sz have "L ! 1 = [\<lparr>attr_value = 7, attr_id = 2\<rparr>]
     \<and> R ! 1 = [\<lparr>attr_value = 0, attr_id = 0\<rparr>, \<lparr>attr_value = 4, attr_id = 1\<rparr>]
     \<and> size (L ! 1) + size (R ! 1) = 3 \<and> sorted_table (L ! 1) \<and> sorted_table (R ! 1)"
    by blast
  with s show ?thesis by blast
qed

subsection \<open>Random feature subsets\<close>














subsection \<open>Training sample and out-of-bag sample\<close>






subsection \<open>The shape of the tree\<close>



subsection \<open>The split search\<close>


























subsection \<open>Count vectors\<close>

lemma fold_upt_nth:
  "i \<le> size xs \<Longrightarrow> fold (\<lambda>j. F (xs ! j)) [0..<i] c = fold F (take i xs) c"
proof (induction i)
  case 0
  then show ?case by simp
next
  case (Suc i)
  then have "take (Suc i) xs = take i xs @ [xs ! i]" by (simp add: take_Suc_conv_app_nth)
  with Suc show ?case by simp
qed

lemma length_fold_update:
  "size (fold (\<lambda>l c. c[f l := g l c]) ls (c0 :: 'a list)) = size c0"
  by (induction ls arbitrary: c0) simp_all

lemma nth_fold_incr:
  "j < size c0 \<Longrightarrow>
   fold (\<lambda>l c. c[l := c ! l + 1]) ls (c0 :: 32 word list) ! j = c0 ! j + of_nat (count_list ls j)"
proof (induction ls arbitrary: c0)
  case Nil
  then show ?case by simp
next
  case (Cons l ls)
  have "size (c0[l := c0 ! l + 1]) = size c0" by simp
  with Cons have "fold (\<lambda>l c. c[l := c ! l + 1]) ls (c0[l := c0 ! l + 1]) ! j
      = c0[l := c0 ! l + 1] ! j + of_nat (count_list ls j)" by simp
  with Cons.prems show ?case by (cases "l = j") simp_all
qed


lemma countsBelow_take:
  assumes "i \<le> size table"
  shows "countsBelow t dataset table i =
         fold (\<lambda>l c. c[l := c ! l + 1]) (classLabels dataset (take i table)) (replicate (m_maxLabel t + 1) 0)"
proof -
  have "countsBelow t dataset table i =
        fold (\<lambda>a c. c[dataset (attr_id a) := c ! dataset (attr_id a) + 1]) (take i table)
          (replicate (m_maxLabel t + 1) 0)"
    unfolding countsBelow_def
    by (rule fold_upt_nth [OF assms, of "\<lambda>a c. c[dataset (attr_id a) := c ! dataset (attr_id a) + 1]"])
  then show ?thesis by (simp add: classLabels_def fold_map comp_def)
qed


lemma size_countsBelow: "size (countsBelow t dataset table i) = m_maxLabel t + 1"
  unfolding countsBelow_def by (simp add: length_fold_update)


lemma nth_countsBelow:
  assumes "i \<le> size table" "j < m_maxLabel t + 1"
  shows "countsBelow t dataset table i ! j = of_nat (count_list (classLabels dataset (take i table)) j)"
proof -
  have j: "j < size (replicate (m_maxLabel t + 1) (0 :: 32 word))" using assms(2) by simp
  have z: "replicate (m_maxLabel t + 1) (0 :: 32 word) ! j = 0"
    using assms(2) by (simp only: nth_replicate)
  show ?thesis
    unfolding countsBelow_take [OF assms(1)] nth_fold_incr [OF j] z by simp
qed


text \<open>The counts depend on the rows only, not on their order.\<close>

lemma classLabels_mset:
  assumes "mset (map attr_id t1) = mset (map attr_id t2)"
  shows "count_list (classLabels dataset t1) j = count_list (classLabels dataset t2) j"
proof -
  have "mset (classLabels dataset t1) = image_mset dataset (mset (map attr_id t1))"
    by (simp add: classLabels_def multiset.map_comp comp_def)
  also have "\<dots> = image_mset dataset (mset (map attr_id t2))" using assms by simp
  also have "\<dots> = mset (classLabels dataset t2)"
    by (simp add: classLabels_def multiset.map_comp comp_def)
  finally have "count (mset (classLabels dataset t1)) j = count (mset (classLabels dataset t2)) j"
    by simp
  then show ?thesis by (simp add: count_mset)
qed

lemma countsBelow_cong:
  assumes "mset (map attr_id t1) = mset (map attr_id t2)"
  shows "countsBelow t dataset t1 (size t1) = countsBelow t dataset t2 (size t2)"
proof (rule nth_equalityI)
  show "size (countsBelow t dataset t1 (size t1)) = size (countsBelow t dataset t2 (size t2))"
    by (simp add: size_countsBelow)
next
  fix j assume "j < size (countsBelow t dataset t1 (size t1))"
  then have j: "j < m_maxLabel t + 1" by (simp add: size_countsBelow)
  show "countsBelow t dataset t1 (size t1) ! j = countsBelow t dataset t2 (size t2) ! j"
    using classLabels_mset [OF assms, of dataset j]
    by (simp add: nth_countsBelow [OF _ j])
qed

subsection \<open>Aligned tables\<close>









subsection \<open>The calls of the recursion\<close>












text \<open>
  The call that \<^verbatim>\<open>train\<close> makes on a training sample of at least one and fewer than
  \<open>2^32\<close> rows, with at least one feature and labels up to \<^verbatim>\<open>m_maxLabel\<close>, is
  well-formed, and its tables are sorted.
\<close>

lemma createCountVector_fold:
  assumes "\<forall>i < elements. dataset i \<le> m_maxLabel t"
  shows "createCountVector t dataset elements =
         Inr (fold (\<lambda>l c. c[l := c ! l + 1]) (map dataset [0..<elements]) (replicate (m_maxLabel t + 1) 0))"
proof -
  have "\<And>c. size c = m_maxLabel t + 1 \<Longrightarrow> \<forall>i\<in>set is. dataset i \<le> m_maxLabel t \<Longrightarrow>
      for_each (\<lambda>i cAbove. if dataset i < size cAbove
                           then Inr (cAbove[dataset i := cAbove ! dataset i + 1])
                           else Inl OutOfRange) is c
      = Inr (fold (\<lambda>l c. c[l := c ! l + 1]) (map dataset is) c)" for "is"
    by (induction "is") (simp_all add: less_Suc_eq_le)
  from this [of "replicate (m_maxLabel t + 1) 0" "[0..<elements]"] assms
  show ?thesis by (simp add: createCountVector_def)
qed

lemma createAttributeTables_wf:
  assumes s: "sorts_tables sort_table" and d: "0 < m_inputDimension t"
    and n: "0 < elements" "elements < 2 ^ 32"
    and l: "\<forall>i < elements. dataset i \<le> m_maxLabel t"
    and c: "createCountVector t dataset elements = Inr cAbove"
  shows "class_wf t dataset (createAttributeTables sort_table t element elements) cAbove"
    and "\<forall>table \<in> set (createAttributeTables sort_table t element elements). sorted_table table"
proof -
  let ?T = "createAttributeTables sort_table t element elements"
  let ?raw = "\<lambda>j. map (\<lambda>i. \<lparr>attr_value = element i j, attr_id = i\<rparr>) [0..<elements]"
  have ms: "\<And>table. mset (sort_table table) = mset table"
    and so: "\<And>table. sorted_table (sort_table table)"
    using s by (simp_all add: sorts_tables_def)
  have ids: "\<And>j. mset (map attr_id (sort_table (?raw j))) = mset [0..<elements]"
  proof -
    fix j
    have raw: "map attr_id (?raw j) = [0..<elements]" by (simp add: comp_def)
    have "mset (map attr_id (sort_table (?raw j))) = mset (map attr_id (?raw j))"
      by (simp only: mset_map ms)
    then show "mset (map attr_id (sort_table (?raw j))) = mset [0..<elements]"
      by (simp only: raw)
  qed
  have dist: "\<And>j. distinct (map attr_id (sort_table (?raw j)))"
    using ids by (metis distinct_upt mset_eq_imp_distinct_iff)
  have sets: "\<And>j. set (map attr_id (sort_table (?raw j))) = {0..<elements}"
    using ids by (metis mset_eq_setD set_upt)
  have ne: "?T \<noteq> []" using d by (simp add: createAttributeTables_def)
  have hd: "hd ?T = sort_table (?raw 0)"
    using d by (simp add: createAttributeTables_def hd_map upt_conv_Cons)
  have al: "aligned ?T"
    unfolding aligned_def hd using dist sets by (auto simp: createAttributeTables_def)
  have sz: "size (hd ?T) = elements"
    unfolding hd using ids [of 0] by (metis length_map length_upt mset_eq_length minus_nat.diff_0)
  have lab: "\<forall>a\<in>set (hd ?T). dataset (attr_id a) \<le> m_maxLabel t"
  proof
    fix a assume "a \<in> set (hd ?T)"
    then have "attr_id a \<in> set (map attr_id (sort_table (?raw 0)))" unfolding hd by simp
    then have "attr_id a < elements" unfolding sets by simp
    with l show "dataset (attr_id a) \<le> m_maxLabel t" by simp
  qed
  have cA: "cAbove = countsBelow t dataset (hd ?T) (size (hd ?T))"
  proof (rule nth_equalityI)
    from c createCountVector_fold [OF l]
    have f: "cAbove = fold (\<lambda>l c. c[l := c ! l + 1]) (map dataset [0..<elements])
                        (replicate (m_maxLabel t + 1) 0)" by simp
    then have len: "size cAbove = m_maxLabel t + 1" by (simp add: length_fold_update)
    then show "size cAbove = size (countsBelow t dataset (hd ?T) (size (hd ?T)))"
      by (simp add: size_countsBelow)
    fix j assume "j < size cAbove"
    then have j: "j < m_maxLabel t + 1" using len by simp
    then have j': "j < size (replicate (m_maxLabel t + 1) (0 :: 32 word))" by simp
    have z: "replicate (m_maxLabel t + 1) (0 :: 32 word) ! j = 0"
      using j by (simp only: nth_replicate)
    have "mset (map dataset [0..<elements]) = mset (classLabels dataset (hd ?T))"
    proof -
      have "mset (classLabels dataset (hd ?T)) = image_mset dataset (mset (map attr_id (hd ?T)))"
        by (simp add: classLabels_def multiset.map_comp comp_def)
      also have "\<dots> = image_mset dataset (mset [0..<elements])" unfolding hd ids ..
      finally show ?thesis by simp
    qed
    then have "count (mset (map dataset [0..<elements])) j
             = count (mset (classLabels dataset (hd ?T))) j" by simp
    then have cnt: "count_list (map dataset [0..<elements]) j
             = count_list (classLabels dataset (hd ?T)) j" by (simp only: count_mset)
    have "cAbove ! j = of_nat (count_list (map dataset [0..<elements]) j)"
      unfolding f nth_fold_incr [OF j'] z by simp
    also have "\<dots> = countsBelow t dataset (hd ?T) (size (hd ?T)) ! j"
      unfolding cnt by (simp add: nth_countsBelow [OF _ j])
    finally show "cAbove ! j = countsBelow t dataset (hd ?T) (size (hd ?T)) ! j" .
  qed
  have nonempty: "hd ?T \<noteq> []" using sz n(1) by auto
  show "class_wf t dataset ?T cAbove"
    unfolding class_wf_def using ne al nonempty sz n(2) lab cA by simp
  show "\<forall>table \<in> set ?T. sorted_table table"
    using so by (auto simp: createAttributeTables_def)
qed

subsection \<open>The example\<close>













subsection \<open>The three properties of \<^verbatim>\<open>buildTree\<close>\<close>










end
